theory Spec2Isabelle
  imports Complex_Main "HOL-Library.Log_Nat" "HOL-Library.Sublist"
begin

section \<open>JavaScript numbers\<close>

text \<open>
  Every score of the program is a JavaScript \<^verbatim>\<open>number\<close>, an IEEE 754 binary64 value, and
  every \<^verbatim>\<open>+\<close>, \<^verbatim>\<open>*\<close> and \<^verbatim>\<open>/\<close> rounds its exact result to the nearest binary64 value, ties
  to the even significand. A finite number is modelled by the rational it denotes; \<open>fl\<close> is
  the rounding. \<open>expo x\<close> is the binary exponent of a positive \<open>x\<close>
  (\<open>2 powi expo x \<le> x < 2 powi (expo x + 1)\<close>); the significand has 53 bits, and below
  \<open>2 powi (- 1022)\<close> the spacing stays that of the subnormal numbers. Overflow to
  \<^verbatim>\<open>Infinity\<close> (magnitudes from \<open>2 ^ 1024\<close> on), \<^verbatim>\<open>NaN\<close> and the sign of zero are outside the
  model: the scorers only ever divide by the constants 2000 and 20, and the records carry
  the integer counts delivered by the fetcher.
\<close>

definition expo :: "rat \<Rightarrow> int" where
  "expo x =
     (if 1 \<le> x then bitlen \<lfloor>x\<rfloor> - 1
      else (let b = bitlen \<lfloor>1 / x\<rfloor> in if x = 2 powi (1 - b) then 1 - b else - b))"

definition roundTiesToEven :: "rat \<Rightarrow> int" where
  "roundTiesToEven q =
     (let f = \<lfloor>q\<rfloor>; r = q - of_int f
      in if r < 1 / 2 then f else if 1 / 2 < r then f + 1 else if even f then f else f + 1)"

text \<open>The exponent of the last place of the binary64 values around \<open>x\<close>.\<close>

definition ulpExp :: "rat \<Rightarrow> int" where
  "ulpExp x = max (expo \<bar>x\<bar>) (- 1022) - 52"

definition fl :: "rat \<Rightarrow> rat" where
  "fl x =
     (if x = 0 then 0
      else (let e = ulpExp x in of_int (roundTiesToEven (x / 2 powi e)) * 2 powi e))"

definition js_add :: "rat \<Rightarrow> rat \<Rightarrow> rat" where
  "js_add x y = fl (x + y)"

definition js_mul :: "rat \<Rightarrow> rat \<Rightarrow> rat" where
  "js_mul x y = fl (x * y)"

definition js_div :: "rat \<Rightarrow> rat \<Rightarrow> rat" where
  "js_div x y = fl (x / y)"

text \<open>A decimal literal of the source denotes the binary64 value nearest to it.\<close>

definition lit_0_4 :: rat where "lit_0_4 = fl (4 / 10)"
definition lit_0_3 :: rat where "lit_0_3 = fl (3 / 10)"
definition lit_0_2 :: rat where "lit_0_2 = fl (2 / 10)"
definition lit_0_1 :: rat where "lit_0_1 = fl (1 / 10)"

section \<open>Strings and the two regular expressions\<close>

text \<open>
  \<^verbatim>\<open>String.prototype.toLowerCase\<close> on the letters \<^verbatim>\<open>A\<close> to \<^verbatim>\<open>Z\<close>; no other character is
  mapped to one of the letters of \<^verbatim>\<open>test\<close> or \<^verbatim>\<open>spec\<close>.
\<close>

definition toLowerChar :: "char \<Rightarrow> char" where
  "toLowerChar c =
     (let n = (of_char c :: nat) in if 65 \<le> n \<and> n \<le> 90 then char_of (n + 32) else c)"

definition toLowerCase :: "string \<Rightarrow> string" where
  "toLowerCase s = map toLowerChar s"

text \<open>
  \<^verbatim>\<open>/a|b|.../.test(s)\<close> for literal alternatives: some alternative occurs at some position
  of \<open>s\<close>.
\<close>

fun occursIn :: "string \<Rightarrow> string \<Rightarrow> bool" where
  "occursIn pat [] = (pat = [])"
| "occursIn pat (c # cs) = (prefix pat (c # cs) \<or> occursIn pat cs)"

definition regexTest :: "string list \<Rightarrow> string \<Rightarrow> bool" where
  "regexTest alts s = list_ex (\<lambda>alt. occursIn alt s) alts"

section \<open>The data model\<close>

text \<open>\<^verbatim>\<open>AIRiskAnalysis\<close>, the object validated by \<^verbatim>\<open>riskAnalysisSchema\<close>.\<close>

record AIRiskAnalysis =
  riskScore :: rat
  riskFactors :: "string list"
  reasoning :: string
  concerns :: "string list"
  recommendations :: "string list"

text \<open>
  \<^verbatim>\<open>PullRequest\<close> of \<^verbatim>\<open>github/types\<close>. Dates are milliseconds since the epoch. The counts are
  the integers of the GitHub API.
\<close>

record PullRequest =
  number :: int
  title :: string
  url :: string
  labels :: "string list"
  additions :: int
  deletions :: int
  changedFiles :: int
  filesChanged :: "string list"
  createdAt :: int
  mergedAt :: "int option"
  timeToMergeHours :: rat
  author :: string
  riskScore :: "rat option"

text \<open>
  The digest command assigns \<^verbatim>\<open>pr.aiRiskAnalysis\<close> on the records it has scored; a record
  without the property has \<open>None\<close>.
\<close>

record DigestPR = PullRequest +
  aiRiskAnalysis :: "AIRiskAnalysis option"

section \<open>The formula scorers\<close>

text \<open>\<^verbatim>\<open>calculateRisk\<close> of \<^verbatim>\<open>analysis/risk\<close>, with its local constants.\<close>

definition risk_noTests :: "PullRequest \<Rightarrow> bool" where
  "risk_noTests pr =
     (\<not> list_ex (\<lambda>f. regexTest [''test'', ''spec'', ''.test.'', ''.spec.''] (toLowerCase f))
          (filesChanged pr))"

definition calculateRisk :: "PullRequest \<Rightarrow> rat" where
  "calculateRisk pr =
     (let totalLines = js_add (of_int (additions pr)) (of_int (deletions pr));
          normalizedLines = js_div (min totalLines 2000) 2000;
          normalizedFiles = js_div (min (of_int (changedFiles pr)) 20) 20;
          noTests = risk_noTests pr;
          slowMerge = (timeToMergeHours pr > 72)
      in js_add
           (js_add
              (js_add (js_mul normalizedLines lit_0_4) (js_mul normalizedFiles lit_0_3))
              (if noTests then lit_0_2 else 0))
           (if slowMerge then lit_0_1 else 0))"

definition calculateRiskForPRs :: "PullRequest list \<Rightarrow> PullRequest list" where
  "calculateRiskForPRs prs = map (\<lambda>pr. pr\<lparr>PullRequest.riskScore := Some (calculateRisk pr)\<rparr>) prs"

text \<open>The private \<^verbatim>\<open>calculateFormulaRisk\<close> of \<^verbatim>\<open>analysis/ai-risk\<close>.\<close>

definition formula_noTests :: "PullRequest \<Rightarrow> bool" where
  "formula_noTests pr =
     (\<not> list_ex (\<lambda>f. regexTest [''test'', ''spec''] f) (filesChanged pr))"

definition calculateFormulaRisk :: "PullRequest \<Rightarrow> rat" where
  "calculateFormulaRisk pr =
     (let normalizedLines =
            js_div (min (js_add (of_int (additions pr)) (of_int (deletions pr))) 2000) 2000;
          normalizedFiles = js_div (min (of_int (changedFiles pr)) 20) 20;
          noTests = formula_noTests pr;
          slowMerge = (timeToMergeHours pr > 72)
      in js_add
           (js_add
              (js_add (js_mul normalizedLines lit_0_4) (js_mul normalizedFiles lit_0_3))
              (if noTests then lit_0_2 else 0))
           (if slowMerge then lit_0_1 else 0))"

section \<open>The batch escalator\<close>

text \<open>
  \<^verbatim>\<open>analyzeRiskWithAI\<close> calls the language model; its outcome is not a function of the
  record. The provider is therefore an arbitrary table: the outcome of the \<open>k\<close>-th call of
  the run (counted from 0) on a record and an API key, \<open>Inl\<close> the message of the error
  thrown, \<open>Inr\<close> the validated analysis. Every run of the program follows one such table.
\<close>

type_synonym provider = "nat \<Rightarrow> PullRequest \<Rightarrow> string \<Rightarrow> string + AIRiskAnalysis"

text \<open>What a run does besides returning: the console lines, progress calls and timers.\<close>

datatype event =
  ConsoleError int string
| ConsoleLog nat
| OnProgress nat nat
| SetTimeout nat

text \<open>
  \<open>calls\<close> lists the arguments of the \<^verbatim>\<open>analyzeRiskWithAI\<close> calls in the order they are
  started, \<open>batches\<close> the successive values of the local \<^verbatim>\<open>batch\<close>.
\<close>

record Effects =
  calls :: "PullRequest list"
  batches :: "PullRequest list list"
  events :: "event list"

text \<open>The \<^verbatim>\<open>options\<close> argument: \<^verbatim>\<open>concurrent\<close> may be absent, \<^verbatim>\<open>onProgress\<close> is given or not.\<close>

record BatchOptions =
  concurrent :: "nat option"
  onProgress :: bool

definition noOptions :: BatchOptions where
  "noOptions = \<lparr>concurrent = None, onProgress = False\<rparr>"

text \<open>\<^verbatim>\<open>prs.slice(i, j)\<close> for \<open>0 \<le> i \<le> j\<close>.\<close>

definition js_slice :: "nat \<Rightarrow> nat \<Rightarrow> 'a list \<Rightarrow> 'a list" where
  "js_slice i j xs = take (j - i) (drop i xs)"

text \<open>
  \<^verbatim>\<open>Promise.all(batch.map(async (pr) => { try ... catch ... }))\<close>: the calls of a batch are
  started in batch order, the \<open>k\<close>-th of the run being the first of them; a call that throws
  yields \<^verbatim>\<open>null\<close>.
\<close>

definition settle :: "provider \<Rightarrow> string \<Rightarrow> nat \<times> PullRequest \<Rightarrow> (int \<times> AIRiskAnalysis) option" where
  "settle analyze apiKey c =
     (case analyze (fst c) (snd c) apiKey of
        Inl err \<Rightarrow> None
      | Inr analysis \<Rightarrow> Some (number (snd c), analysis))"

definition settleError :: "provider \<Rightarrow> string \<Rightarrow> nat \<times> PullRequest \<Rightarrow> event list" where
  "settleError analyze apiKey c =
     (case analyze (fst c) (snd c) apiKey of
        Inl err \<Rightarrow> [ConsoleError (number (snd c)) err]
      | Inr analysis \<Rightarrow> [])"

definition numbered :: "nat \<Rightarrow> PullRequest list \<Rightarrow> (nat \<times> PullRequest) list" where
  "numbered k batch = zip [k ..< k + length batch] batch"

text \<open>\<^verbatim>\<open>for (const result of batchResults) if (result) results.set(...)\<close>.\<close>

fun storeResults ::
  "(int \<rightharpoonup> AIRiskAnalysis) \<Rightarrow> (int \<times> AIRiskAnalysis) option list \<Rightarrow> (int \<rightharpoonup> AIRiskAnalysis)" where
  "storeResults results [] = results"
| "storeResults results (None # rs) = storeResults results rs"
| "storeResults results (Some (prNumber, analysis) # rs) =
     storeResults (results(prNumber \<mapsto> analysis)) rs"

text \<open>One iteration of the \<^verbatim>\<open>for (let i = 0; i < prs.length; i += concurrent)\<close> loop.\<close>

definition batchStep ::
  "provider \<Rightarrow> string \<Rightarrow> nat \<Rightarrow> bool \<Rightarrow> PullRequest list \<Rightarrow> nat \<Rightarrow>
   (int \<rightharpoonup> AIRiskAnalysis) \<times> Effects \<Rightarrow> (int \<rightharpoonup> AIRiskAnalysis) \<times> Effects" where
  "batchStep analyze apiKey conc progress prs i st =
     (let results = fst st; eff = snd st;
          batch = js_slice i (i + conc) prs;
          started = numbered (length (calls eff)) batch;
          batchResults = map (settle analyze apiKey) started
      in (storeResults results batchResults,
          eff\<lparr>calls := calls eff @ batch,
              batches := batches eff @ [batch],
              events := events eff
                @ concat (map (settleError analyze apiKey) started)
                @ (if progress then [OnProgress (min (i + conc) (length prs)) (length prs)] else [])
                @ (if i + conc < length prs then [SetTimeout 500] else [])\<rparr>))"

text \<open>
  The loop itself. With \<^verbatim>\<open>concurrent\<close> 0 it never advances, so the result is an option:
  \<open>None\<close> is a run that does not return.
\<close>

partial_function (option) batchLoop ::
  "provider \<Rightarrow> string \<Rightarrow> nat \<Rightarrow> bool \<Rightarrow> PullRequest list \<Rightarrow> nat \<Rightarrow>
   (int \<rightharpoonup> AIRiskAnalysis) \<times> Effects \<Rightarrow> ((int \<rightharpoonup> AIRiskAnalysis) \<times> Effects) option" where
  "batchLoop analyze apiKey conc progress prs i st =
     (if i < length prs
      then batchLoop analyze apiKey conc progress prs (i + conc)
             (batchStep analyze apiKey conc progress prs i st)
      else Some st)"

declare batchLoop.simps [code]

text \<open>\<^verbatim>\<open>const { concurrent = 3, onProgress } = options\<close>.\<close>

definition concurrency :: "BatchOptions \<Rightarrow> nat" where
  "concurrency options = (case concurrent options of None \<Rightarrow> 3 | Some c \<Rightarrow> c)"

definition batchAnalyzeRisksWithAI ::
  "provider \<Rightarrow> PullRequest list \<Rightarrow> string \<Rightarrow> BatchOptions \<Rightarrow> Effects \<Rightarrow>
   ((int \<rightharpoonup> AIRiskAnalysis) \<times> Effects) option" where
  "batchAnalyzeRisksWithAI analyze prs apiKey options eff =
     batchLoop analyze apiKey (concurrency options) (onProgress options) prs 0 (Map.empty, eff)"

section \<open>The hybrid analysis and the digest command\<close>

text \<open>\<^verbatim>\<open>hybridRiskAnalysis\<close>; an absent threshold is 0.5.\<close>

definition highRiskPRs :: "PullRequest list \<Rightarrow> rat \<Rightarrow> PullRequest list" where
  "highRiskPRs prs formulaRiskThreshold =
     filter (\<lambda>pr. calculateFormulaRisk pr \<ge> formulaRiskThreshold) prs"

definition hybridRiskAnalysis ::
  "provider \<Rightarrow> PullRequest list \<Rightarrow> string \<Rightarrow> rat option \<Rightarrow> Effects \<Rightarrow>
   ((int \<rightharpoonup> AIRiskAnalysis) \<times> Effects) option" where
  "hybridRiskAnalysis analyze prs apiKey threshold eff =
     (let formulaRiskThreshold = (case threshold of None \<Rightarrow> 1 / 2 | Some t \<Rightarrow> t);
          high = highRiskPRs prs formulaRiskThreshold
      in batchAnalyzeRisksWithAI analyze high apiKey noOptions
           (eff\<lparr>events := events eff @ [ConsoleLog (length high)]\<rparr>))"

text \<open>
  The risk stage of \<^verbatim>\<open>DigestCommand\<close>: score every record, and with \<^verbatim>\<open>--ai-risk\<close> run the
  hybrid analysis and merge its map into the scored records.
  \<^verbatim>\<open>props.aiRiskThreshold || 0.5\<close> replaces an absent and a zero threshold by 0.5.
\<close>

definition thresholdOrDefault :: "rat option \<Rightarrow> rat" where
  "thresholdOrDefault aiRiskThreshold =
     (case aiRiskThreshold of None \<Rightarrow> 1 / 2 | Some t \<Rightarrow> if t = 0 then 1 / 2 else t)"

definition mergeAI :: "(int \<rightharpoonup> AIRiskAnalysis) \<Rightarrow> PullRequest \<Rightarrow> DigestPR" where
  "mergeAI aiRiskResults pr =
     (case aiRiskResults (number pr) of
        None \<Rightarrow> PullRequest.extend pr \<lparr>aiRiskAnalysis = None\<rparr>
      | Some aiAnalysis \<Rightarrow>
          PullRequest.extend
            (pr\<lparr>PullRequest.riskScore := Some (AIRiskAnalysis.riskScore aiAnalysis)\<rparr>)
            \<lparr>aiRiskAnalysis = Some aiAnalysis\<rparr>)"

definition digestRiskStage ::
  "provider \<Rightarrow> string \<Rightarrow> bool \<Rightarrow> rat option \<Rightarrow> PullRequest list \<Rightarrow> Effects \<Rightarrow>
   (DigestPR list \<times> Effects) option" where
  "digestRiskStage analyze apiKey aiRisk aiRiskThreshold prs eff =
     (let prsWithRisk = calculateRiskForPRs prs
      in if aiRisk
         then (case hybridRiskAnalysis analyze prsWithRisk apiKey
                      (Some (thresholdOrDefault aiRiskThreshold)) eff of
                 None \<Rightarrow> None
               | Some r \<Rightarrow> Some (map (mergeAI (fst r)) prsWithRisk, snd r))
         else Some (map (\<lambda>pr. PullRequest.extend pr \<lparr>aiRiskAnalysis = None\<rparr>) prsWithRisk, eff))"

section \<open>Reference notions for the escalator\<close>

text \<open>
  The groups a list is cut into: consecutive pieces of \<open>n\<close> elements, the last one with
  what is left.
\<close>

function chunksOf :: "nat \<Rightarrow> 'a list \<Rightarrow> 'a list list" where
  "chunksOf n xs = (if n = 0 \<or> xs = [] then [] else take n xs # chunksOf n (drop n xs))"
  by pat_completeness auto
termination
  by (relation "measure (\<lambda>(n, xs). length xs)") auto

declare chunksOf.simps [simp del]

text \<open>
  Analysing the records one at a time, the \<open>k\<close>-th call of the run first: a success is
  stored under the record's number, a failure stores nothing.
\<close>

fun analyzeIndividually ::
  "provider \<Rightarrow> string \<Rightarrow> nat \<Rightarrow> PullRequest list \<Rightarrow> (int \<rightharpoonup> AIRiskAnalysis) \<Rightarrow>
   (int \<rightharpoonup> AIRiskAnalysis)" where
  "analyzeIndividually analyze apiKey k [] results = results"
| "analyzeIndividually analyze apiKey k (pr # prs) results =
     analyzeIndividually analyze apiKey (Suc k) prs
       (case analyze k pr apiKey of
          Inl err \<Rightarrow> results
        | Inr analysis \<Rightarrow> results(number pr \<mapsto> analysis))"

text \<open>Whether the call for the \<open>i\<close>-th record of the list succeeds, \<open>k\<close> calls having been made.\<close>

definition succeeds :: "provider \<Rightarrow> string \<Rightarrow> nat \<Rightarrow> PullRequest list \<Rightarrow> nat \<Rightarrow> bool" where
  "succeeds analyze apiKey k prs i =
     (case analyze (k + i) (prs ! i) apiKey of Inl err \<Rightarrow> False | Inr analysis \<Rightarrow> True)"

definition fails :: "provider \<Rightarrow> string \<Rightarrow> nat \<Rightarrow> PullRequest list \<Rightarrow> nat \<Rightarrow> bool" where
  "fails analyze apiKey k prs i =
     (case analyze (k + i) (prs ! i) apiKey of Inl err \<Rightarrow> True | Inr analysis \<Rightarrow> False)"

section \<open>Example records and providers\<close>

text \<open>
  The record of the documentation's sample report (pull request 842, 14 files, +300/-120
  lines, one test file, merged after 50 hours) and variations of it, an analysis as the
  documentation shows one, a provider whose second call fails, and options asking for groups
  of two.
\<close>

definition examplePR :: PullRequest where
  "examplePR =
     \<lparr>number = 842, title = ''Add idempotency to charge route'', url = ''https://example.test/842'',
      labels = [], additions = 300, deletions = 120, changedFiles = 14,
      filesChanged = [''src/charge.ts'', ''src/charge.test.ts''],
      createdAt = 0, mergedAt = Some 180000000, timeToMergeHours = 50, author = ''dev'',
      riskScore = None\<rparr>"

definition maximalPR :: PullRequest where
  "maximalPR = examplePR\<lparr>number := 1, additions := 2000, deletions := 0, changedFiles := 20,
     filesChanged := [''src/feature.ts''], timeToMergeHours := 73\<rparr>"

definition largePR :: PullRequest where
  "largePR = examplePR\<lparr>number := 2, additions := 1500, deletions := 700, changedFiles := 25,
     filesChanged := [''src/feature.ts''], timeToMergeHours := 100\<rparr>"

definition upperCaseTestPR :: PullRequest where
  "upperCaseTestPR = examplePR\<lparr>number := 3, additions := 0, deletions := 0, changedFiles := 0,
     filesChanged := [''SRC/Feature.Test.ts''], timeToMergeHours := 1\<rparr>"

definition lowerCasePlainPR :: PullRequest where
  "lowerCasePlainPR = examplePR\<lparr>number := 7, additions := 0, deletions := 0, changedFiles := 0,
     filesChanged := [''src/feature.ts''], timeToMergeHours := 1\<rparr>"

definition quietPR :: PullRequest where
  "quietPR = examplePR\<lparr>number := 8, additions := 0, deletions := 0, changedFiles := 0,
     filesChanged := [''src/a.test.ts''], timeToMergeHours := 1\<rparr>"

definition specDirPR :: PullRequest where
  "specDirPR = examplePR\<lparr>number := 4, additions := 880,
     filesChanged := [''Spec/Runner.TS'']\<rparr>"

definition sevenPRs :: "PullRequest list" where
  "sevenPRs = map (\<lambda>n. maximalPR\<lparr>number := n\<rparr>) [1, 2, 3, 4, 5, 6, 7]"

definition someAnalysis :: AIRiskAnalysis where
  "someAnalysis =
     \<lparr>AIRiskAnalysis.riskScore = 3 / 4,
      riskFactors = [''Modifies authentication middleware''],
      reasoning = ''This PR touches critical auth code without adequate test coverage'',
      concerns = [''Authentication bypass potential''],
      recommendations = [''Add integration tests for auth flows'']\<rparr>"

definition flakyProvider :: provider where
  "flakyProvider k pr apiKey = (if k = 1 then Inl ''timeout'' else Inr someAnalysis)"

definition pairOptions :: BatchOptions where
  "pairOptions = \<lparr>concurrent = Some 2, onProgress = True\<rparr>"

definition noEffects :: Effects where
  "noEffects = \<lparr>calls = [], batches = [], events = []\<rparr>"

section \<open>Rounding is monotone\<close>

lemma rte_bounds: "\<lfloor>q\<rfloor> \<le> roundTiesToEven q \<and> roundTiesToEven q \<le> \<lfloor>q\<rfloor> + 1"
  by (simp add: roundTiesToEven_def Let_def)

lemma rte_of_int: "roundTiesToEven (of_int n) = n"
  by (simp add: roundTiesToEven_def Let_def)

lemma rte_mono:
  assumes "x \<le> y"
  shows "roundTiesToEven x \<le> roundTiesToEven y"
proof (cases "\<lfloor>x\<rfloor> = \<lfloor>y\<rfloor>")
  case True
  then have "x - of_int \<lfloor>x\<rfloor> \<le> y - of_int \<lfloor>y\<rfloor>"
    using assms by simp
  with True show ?thesis
    by (auto simp: roundTiesToEven_def Let_def)
next
  case False
  then have "\<lfloor>x\<rfloor> + 1 \<le> \<lfloor>y\<rfloor>"
    using floor_mono [OF assms] by linarith
  then show ?thesis
    using rte_bounds [of x] rte_bounds [of y] by linarith
qed

lemma rte_ge_int: "of_int n \<le> q \<Longrightarrow> n \<le> roundTiesToEven q"
  using rte_mono [of "of_int n" q] by (simp add: rte_of_int)

lemma rte_le_int: "q \<le> of_int n \<Longrightarrow> roundTiesToEven q \<le> n"
  using rte_mono [of q "of_int n"] by (simp add: rte_of_int)

lemma expo_bounds_small:
  assumes "0 < x" "\<not> 1 \<le> x"
  shows "2 powi expo x \<le> x \<and> x < 2 powi (expo x + 1)"
proof -
  define n where "n = \<lfloor>1 / x\<rfloor>"
  define b where "b = bitlen n"
  have y: "1 < 1 / x" using assms by simp
  have n: "1 \<le> n" using y by (simp add: n_def le_floor_iff)
  then have bb: "2 ^ nat (b - 1) \<le> n \<and> n < 2 ^ nat b"
    using bitlen_bounds [of n] by (simp add: b_def)
  have b1: "1 \<le> b"
    using n by (simp add: b_def bitlen_alt_def)
  have "(of_int (2 ^ nat (b - 1)) :: rat) \<le> of_int n"
    using bb by (simp only: of_int_le_iff)
  also have "\<dots> \<le> 1 / x" unfolding n_def using floor_correct [of "1 / x"] by linarith
  finally have lo: "(2::rat) ^ nat (b - 1) \<le> 1 / x" by simp
  have "1 / x < of_int n + 1" unfolding n_def using floor_correct [of "1 / x"] by simp
  also have "(of_int n + 1 :: rat) = of_int (n + 1)" by simp
  also have "\<dots> \<le> of_int (2 ^ nat b)"
    using bb by (simp only: of_int_le_iff) simp
  finally have hi: "1 / x < (2::rat) ^ nat b" by simp
  have p1: "(2::rat) powi (1 - b) = 1 / 2 ^ nat (b - 1)"
    using b1 power_int_minus [of "2::rat" "b - 1"] by (simp add: power_int_def field_simps)
  have p2: "(2::rat) powi (- b) = 1 / 2 ^ nat b"
    using b1 power_int_minus [of "2::rat" "b"] by (simp add: power_int_def field_simps)
  have up: "x \<le> 2 powi (1 - b)"
    unfolding p1 using lo assms(1) by (simp add: field_simps)
  have dn: "2 powi (- b) < x"
    unfolding p2 using hi assms(1) by (simp add: field_simps)
  have e: "expo x = (if x = 2 powi (1 - b) then 1 - b else - b)"
    using assms by (simp add: expo_def n_def b_def Let_def)
  show ?thesis
  proof (cases "x = 2 powi (1 - b)")
    case True
    then show ?thesis
      using e by (simp add: power_int_strict_increasing)
  next
    case False
    then show ?thesis
      using e up dn by simp
  qed
qed


lemma expo_bounds:
  assumes "0 < x"
  shows "2 powi expo x \<le> x \<and> x < 2 powi (expo x + 1)"
proof (cases "1 \<le> x")
  case True
  define n where "n = \<lfloor>x\<rfloor>"
  have n: "1 \<le> n" using True by (simp add: n_def le_floor_iff)
  then have b: "2 ^ nat (bitlen n - 1) \<le> n \<and> n < 2 ^ nat (bitlen n)"
    using bitlen_bounds [of n] by simp
  have b1: "1 \<le> bitlen n"
    using n by (simp add: bitlen_alt_def)
  have e: "expo x = bitlen n - 1"
    using True by (simp add: expo_def n_def)
  have "(of_int (2 ^ nat (bitlen n - 1)) :: rat) \<le> of_int n"
    using b by (simp only: of_int_le_iff)
  also have "\<dots> \<le> x" unfolding n_def using floor_correct [of x] by linarith
  finally have lo: "2 powi expo x \<le> x"
    using b1 by (simp add: e power_int_def)
  have "x < of_int n + 1" unfolding n_def using floor_correct [of x] by simp
  also have "(of_int n + 1 :: rat) = of_int (n + 1)" by simp
  also have "\<dots> \<le> of_int (2 ^ nat (bitlen n))"
    using b by (simp only: of_int_le_iff) simp
  finally have hi: "x < 2 powi (expo x + 1)"
    using b1 by (simp add: e power_int_def)
  from lo hi show ?thesis ..
next
  case False
  with assms show ?thesis by (rule expo_bounds_small)
qed


lemma fl_alt: "x \<noteq> 0 \<Longrightarrow> fl x = of_int (roundTiesToEven (x / 2 powi ulpExp x)) * 2 powi ulpExp x"
  by (simp add: fl_def Let_def)

lemma pow2_pos: "(0::rat) < 2 powi e"
  by simp

lemma fl_nonneg:
  assumes "0 \<le> x"
  shows "0 \<le> fl x"
proof (cases "x = 0")
  case True
  then show ?thesis by (simp add: fl_def)
next
  case False
  have "0 \<le> x / 2 powi ulpExp x"
    using assms by simp
  then have "0 \<le> roundTiesToEven (x / 2 powi ulpExp x)"
    using rte_ge_int [of 0] by simp
  then show ?thesis
    using False by (simp add: fl_alt)
qed

lemma expo_mono:
  assumes "0 < x" "x \<le> y"
  shows "expo x \<le> expo y"
proof (rule ccontr)
  assume "\<not> expo x \<le> expo y"
  then have "expo y + 1 \<le> expo x" by simp
  then have "(2::rat) powi (expo y + 1) \<le> 2 powi expo x"
    by (simp add: power_int_increasing)
  moreover have "2 powi expo x \<le> x" using expo_bounds [OF assms(1)] by simp
  moreover have "y < 2 powi (expo y + 1)" using expo_bounds [of y] assms by simp
  ultimately show False using assms(2) by linarith
qed

lemma pow2_split: "(2::rat) powi (u + int k) = 2 ^ k * 2 powi u"
  using power_int_add [of "2::rat" u "int k"] by (simp add: mult.commute)

lemma fl_lower:
  assumes "0 < y" "- 1022 \<le> expo y"
  shows "2 powi expo y \<le> fl y"
proof -
  define s :: rat where "s = 2 powi ulpExp y"
  have s: "0 < s" by (simp add: s_def)
  have u: "expo y = ulpExp y + int 52" using assms by (simp add: ulpExp_def)
  have p: "(2::rat) powi expo y = 2 ^ 52 * s"
    unfolding u s_def by (rule pow2_split)
  have "2 ^ 52 * s \<le> y"
    using expo_bounds [OF assms(1)] p by simp
  then have "of_int (2 ^ 52) \<le> y / s"
    using s by (simp add: pos_le_divide_eq)
  then have "2 ^ 52 \<le> roundTiesToEven (y / s)"
    by (rule rte_ge_int)
  then have "(of_int (2 ^ 52) :: rat) \<le> of_int (roundTiesToEven (y / s))"
    by (simp only: of_int_le_iff)
  then have "2 ^ 52 * s \<le> of_int (roundTiesToEven (y / s)) * s"
    using s by (simp add: mult_right_mono)
  then show ?thesis
    using assms(1) p by (simp add: fl_alt s_def)
qed

lemma fl_upper:
  assumes "0 < x"
  shows "fl x \<le> 2 powi (max (expo x) (- 1022) + 1)"
proof -
  define s :: rat where "s = 2 powi ulpExp x"
  have s: "0 < s" by (simp add: s_def)
  have u: "max (expo x) (- 1022) + 1 = ulpExp x + int 53" using assms by (simp add: ulpExp_def)
  have p: "(2::rat) powi (max (expo x) (- 1022) + 1) = 2 ^ 53 * s"
    unfolding u s_def by (rule pow2_split)
  have "x < 2 powi (expo x + 1)"
    using expo_bounds [OF assms] by simp
  also have "\<dots> \<le> 2 powi (max (expo x) (- 1022) + 1)"
    by (simp add: power_int_increasing)
  finally have "x \<le> 2 ^ 53 * s"
    using p by simp
  then have "x / s \<le> of_int (2 ^ 53)"
    using s by (simp add: pos_divide_le_eq)
  then have "roundTiesToEven (x / s) \<le> 2 ^ 53"
    by (rule rte_le_int)
  then have "(of_int (roundTiesToEven (x / s)) :: rat) \<le> of_int (2 ^ 53)"
    by (simp only: of_int_le_iff)
  then have "of_int (roundTiesToEven (x / s)) * s \<le> 2 ^ 53 * s"
    using s by (simp add: mult_right_mono)
  then show ?thesis
    using assms p by (simp add: fl_alt s_def)
qed

lemma fl_mono_pos:
  assumes "0 < x" "x \<le> y"
  shows "fl x \<le> fl y"
proof (cases "ulpExp x = ulpExp y")
  case True
  have "x / 2 powi ulpExp y \<le> y / 2 powi ulpExp y"
    using assms(2) by (simp add: divide_right_mono)
  then have "roundTiesToEven (x / 2 powi ulpExp y) \<le> roundTiesToEven (y / 2 powi ulpExp y)"
    by (rule rte_mono)
  then have "(of_int (roundTiesToEven (x / 2 powi ulpExp y)) :: rat) * 2 powi ulpExp y
      \<le> of_int (roundTiesToEven (y / 2 powi ulpExp y)) * 2 powi ulpExp y"
    by (simp add: mult_right_mono)
  then show ?thesis
    using assms True by (simp add: fl_alt)
next
  case False
  have y: "0 < y" using assms by simp
  have "expo x \<le> expo y" using assms by (rule expo_mono)
  with False have lt: "max (expo x) (- 1022) < expo y" and ge: "- 1022 \<le> expo y"
    using assms y by (auto simp: ulpExp_def max_def split: if_splits)
  have "fl x \<le> 2 powi (max (expo x) (- 1022) + 1)"
    using assms(1) by (rule fl_upper)
  also have "\<dots> \<le> 2 powi expo y"
  proof (rule power_int_increasing)
    show "max (expo x) (- 1022) + 1 \<le> expo y" using lt by linarith
  qed simp
  also have "\<dots> \<le> fl y"
    using y ge by (rule fl_lower)
  finally show ?thesis .
qed

lemma fl_mono:
  assumes "0 \<le> x" "x \<le> y"
  shows "fl x \<le> fl y"
proof (cases "x = 0")
  case True
  then show ?thesis using assms fl_nonneg [of y] by (simp add: fl_def)
next
  case False
  then show ?thesis using assms fl_mono_pos [of x y] by simp
qed

lemma js_add_mono:
  assumes "0 \<le> a" "0 \<le> b" "a \<le> a'" "b \<le> b'"
  shows "0 \<le> js_add a b \<and> js_add a b \<le> js_add a' b'"
  unfolding js_add_def using assms by (simp add: fl_nonneg fl_mono)

lemma js_mul_mono:
  assumes "0 \<le> a" "0 \<le> b" "a \<le> a'" "b \<le> b'"
  shows "0 \<le> js_mul a b \<and> js_mul a b \<le> js_mul a' b'"
  unfolding js_mul_def using assms by (simp add: fl_nonneg fl_mono mult_mono)

lemma fl_one: "fl 1 = 1"
  by code_simp

lemma fl_2000: "fl 2000 = 2000"
  by code_simp

lemma lit_values:
  "lit_0_4 = 3602879701896397 / 9007199254740992"
  "lit_0_3 = 5404319552844595 / 18014398509481984"
  "lit_0_2 = 3602879701896397 / 18014398509481984"
  "lit_0_1 = 3602879701896397 / 36028797018963968"
  by code_simp+

lemma weights_sum:
  "js_add (js_add (js_add (js_mul 1 lit_0_4) (js_mul 1 lit_0_3)) lit_0_2) lit_0_1 = 1 - 1 / 2 ^ 53"
  by code_simp

lemma js_div_unit:
  assumes "0 \<le> m" "m \<le> c" "0 < c"
  shows "0 \<le> js_div m c \<and> js_div m c \<le> 1"
proof -
  have "0 \<le> m / c" "m / c \<le> 1" using assms by simp_all
  then have "0 \<le> fl (m / c)" "fl (m / c) \<le> fl 1"
    by (simp_all add: fl_nonneg fl_mono)
  then show ?thesis by (simp add: js_div_def fl_one)
qed

lemma weighted_bounds:
  assumes "0 \<le> nl" "nl \<le> 1" "0 \<le> nf" "nf \<le> 1"
    and "b3 = 0 \<or> b3 = lit_0_2" and "b4 = 0 \<or> b4 = lit_0_1"
  shows "0 \<le> js_add (js_add (js_add (js_mul nl lit_0_4) (js_mul nf lit_0_3)) b3) b4
    \<and> js_add (js_add (js_add (js_mul nl lit_0_4) (js_mul nf lit_0_3)) b3) b4 \<le> 1"
proof -
  have c: "0 \<le> lit_0_4" "0 \<le> lit_0_3" "0 \<le> lit_0_2" "0 \<le> lit_0_1"
    by (simp_all add: lit_values)
  have b3: "0 \<le> b3" "b3 \<le> lit_0_2" using assms(5) c by auto
  have b4: "0 \<le> b4" "b4 \<le> lit_0_1" using assms(6) c by auto
  have t1: "0 \<le> js_mul nl lit_0_4 \<and> js_mul nl lit_0_4 \<le> js_mul 1 lit_0_4"
    using assms c by (intro js_mul_mono) simp_all
  have t2: "0 \<le> js_mul nf lit_0_3 \<and> js_mul nf lit_0_3 \<le> js_mul 1 lit_0_3"
    using assms c by (intro js_mul_mono) simp_all
  have s1: "0 \<le> js_add (js_mul nl lit_0_4) (js_mul nf lit_0_3)
      \<and> js_add (js_mul nl lit_0_4) (js_mul nf lit_0_3) \<le> js_add (js_mul 1 lit_0_4) (js_mul 1 lit_0_3)"
    using t1 t2 by (intro js_add_mono) simp_all
  have s2: "0 \<le> js_add (js_add (js_mul nl lit_0_4) (js_mul nf lit_0_3)) b3
      \<and> js_add (js_add (js_mul nl lit_0_4) (js_mul nf lit_0_3)) b3
        \<le> js_add (js_add (js_mul 1 lit_0_4) (js_mul 1 lit_0_3)) lit_0_2"
    using s1 b3 by (intro js_add_mono) simp_all
  have s3: "0 \<le> js_add (js_add (js_add (js_mul nl lit_0_4) (js_mul nf lit_0_3)) b3) b4
      \<and> js_add (js_add (js_add (js_mul nl lit_0_4) (js_mul nf lit_0_3)) b3) b4
        \<le> js_add (js_add (js_add (js_mul 1 lit_0_4) (js_mul 1 lit_0_3)) lit_0_2) lit_0_1"
    using s2 b4 by (intro js_add_mono) simp_all
  then show ?thesis
    unfolding weights_sum by simp
qed

section \<open>The formula score\<close>

text \<open>
  Claim C6. For every record with non-negative additions, deletions and changed-file
  count, the score of \<^verbatim>\<open>calculateRisk\<close> lies between 0 and 1. The proof follows the
  source's expression: both normalised terms lie in the unit interval, rounding is monotone,
  and the four weights added in the source's order round to \<open>1 - 1 / 2 ^ 53\<close>.
\<close>

theorem calculateRisk_bounded:
  assumes "0 \<le> additions pr" "0 \<le> deletions pr" "0 \<le> changedFiles pr"
  shows "0 \<le> calculateRisk pr \<and> calculateRisk pr \<le> 1"
proof -
  define totalLines where "totalLines = js_add (of_int (additions pr)) (of_int (deletions pr))"
  have tl: "0 \<le> totalLines"
    unfolding totalLines_def js_add_def using assms by (intro fl_nonneg) simp
  have nl: "0 \<le> js_div (min totalLines 2000) 2000 \<and> js_div (min totalLines 2000) 2000 \<le> 1"
    using tl by (intro js_div_unit) simp_all
  have nf: "0 \<le> js_div (min (of_int (changedFiles pr)) 20) 20
      \<and> js_div (min (of_int (changedFiles pr)) 20) 20 \<le> 1"
    using assms(3) by (intro js_div_unit) simp_all
  show ?thesis
    unfolding calculateRisk_def Let_def totalLines_def [symmetric]
    using nl nf by (intro weighted_bounds) simp_all
qed

theorem calculateRisk_bounded_witness:
  "0 \<le> additions examplePR \<and> 0 \<le> deletions examplePR \<and> 0 \<le> changedFiles examplePR
   \<and> 0 \<le> calculateRisk examplePR \<and> calculateRisk examplePR \<le> 1"
proof -
  have h: "0 \<le> additions examplePR" "0 \<le> deletions examplePR" "0 \<le> changedFiles examplePR"
    by (simp_all add: examplePR_def)
  show ?thesis
    using h calculateRisk_bounded [OF h] by simp
qed

text \<open>The score at the caps of both size terms, without tests and with a slow merge.\<close>

lemma calculateRisk_at_caps:
  assumes "2000 \<le> additions pr + deletions pr" "20 \<le> changedFiles pr"
    and "risk_noTests pr" "72 < timeToMergeHours pr"
  shows "calculateRisk pr = 1 - 1 / 2 ^ 53"
proof -
  have "fl 2000 \<le> fl (of_int (additions pr) + of_int (deletions pr))"
  proof (rule fl_mono)
    have "(of_int 2000 :: rat) \<le> of_int (additions pr + deletions pr)"
      using assms(1) by (simp only: of_int_le_iff)
    then show "(2000 :: rat) \<le> of_int (additions pr) + of_int (deletions pr)" by simp
  qed simp
  then have tl: "min (js_add (of_int (additions pr)) (of_int (deletions pr))) 2000 = 2000"
    by (simp add: js_add_def fl_2000)
  have "(of_int 20 :: rat) \<le> of_int (changedFiles pr)"
    using assms(2) by (simp only: of_int_le_iff)
  then have cf: "min (of_int (changedFiles pr)) (20 :: rat) = 20" by simp
  have one: "js_div 2000 2000 = 1" "js_div 20 20 = 1"
    by (simp_all add: js_div_def fl_one)
  show ?thesis
    unfolding calculateRisk_def Let_def tl cf one using assms(3,4) weights_sum by simp
qed

text \<open>
  Claim C8, as stated, fails: the record \<open>maximalPR\<close> has 2000 changed lines, 20 changed
  files, no test-like path and a merge after 73 hours, and its score is not 1.
\<close>

theorem maximal_score_is_not_one:
  "2000 \<le> additions maximalPR + deletions maximalPR \<and> 20 \<le> changedFiles maximalPR
   \<and> risk_noTests maximalPR \<and> 72 < timeToMergeHours maximalPR
   \<and> calculateRisk maximalPR \<noteq> 1"
  by code_simp

text \<open>
  Claim C8, amended. A record with at least 2000 changed lines, at least 20 changed files,
  no test-like changed path and a merge more than 72 hours after creation receives the
  score \<open>1 - 1 / 2 ^ 53\<close> (printed 0.9999999999999999): the binary64 sum of 0.4, 0.3, 0.2 and
  0.1 added from left to right, one unit in the last place below 1.
\<close>

theorem calculateRisk_maximal:
  assumes "2000 \<le> additions pr + deletions pr" "20 \<le> changedFiles pr"
    and "risk_noTests pr" "72 < timeToMergeHours pr"
  shows "calculateRisk pr = 1 - 1 / 2 ^ 53"
  using assms by (rule calculateRisk_at_caps)

theorem calculateRisk_maximal_witness:
  "2000 \<le> additions largePR + deletions largePR \<and> 20 \<le> changedFiles largePR
   \<and> risk_noTests largePR \<and> 72 < timeToMergeHours largePR
   \<and> calculateRisk largePR = 1 - 1 / 2 ^ 53"
proof -
  have h1: "2000 \<le> additions largePR + deletions largePR" by (simp add: largePR_def)
  have h2: "20 \<le> changedFiles largePR" by (simp add: largePR_def)
  have h3: "risk_noTests largePR" by code_simp
  have h4: "72 < timeToMergeHours largePR" by (simp add: largePR_def)
  show ?thesis
    using h1 h2 h3 h4 calculateRisk_maximal [OF h1 h2 h3 h4] by simp
qed

section \<open>Test detection in the two scorers\<close>

text \<open>
  The pattern of \<^verbatim>\<open>calculateRisk\<close> is applied to the lower-cased path and finds a test-like
  file exactly when that path contains \<^verbatim>\<open>test\<close> or \<^verbatim>\<open>spec\<close>; the pattern of
  \<^verbatim>\<open>calculateFormulaRisk\<close> is applied to the path as it is.
\<close>

lemma occursIn_sublist: "occursIn pat s = sublist pat s"
  by (induction s) (simp_all add: sublist_Cons_right)

lemma regexTest_calculateRisk:
  "regexTest [''test'', ''spec'', ''.test.'', ''.spec.''] s
     = (sublist ''test'' s \<or> sublist ''spec'' s)"
proof -
  have "sublist ''test'' ''.test.''" "sublist ''spec'' ''.spec.''"
    by code_simp+
  then have "sublist ''.test.'' s \<Longrightarrow> sublist ''test'' s"
    and "sublist ''.spec.'' s \<Longrightarrow> sublist ''spec'' s"
    using sublist_order.order.trans by blast+
  then show ?thesis
    by (auto simp: regexTest_def occursIn_sublist)
qed

lemma risk_noTests_iff:
  "risk_noTests pr \<longleftrightarrow>
     (\<forall>f \<in> set (filesChanged pr).
        \<not> sublist ''test'' (toLowerCase f) \<and> \<not> sublist ''spec'' (toLowerCase f))"
  by (auto simp: risk_noTests_def list_ex_iff regexTest_calculateRisk)

lemma formula_noTests_iff:
  "formula_noTests pr \<longleftrightarrow>
     (\<forall>f \<in> set (filesChanged pr). \<not> sublist ''test'' f \<and> \<not> sublist ''spec'' f)"
  by (auto simp: formula_noTests_def list_ex_iff regexTest_def occursIn_sublist)

lemma fl_zero: "fl 0 = 0"
  by (simp add: fl_def)

lemma scorers_agree_if:
  "risk_noTests pr = formula_noTests pr \<Longrightarrow> calculateRisk pr = calculateFormulaRisk pr"
  by (simp add: calculateRisk_def calculateFormulaRisk_def Let_def)

lemma calculateFormulaRisk_riskScore:
  "calculateFormulaRisk (pr\<lparr>PullRequest.riskScore := s\<rparr>) = calculateFormulaRisk pr"
  by (simp add: calculateFormulaRisk_def formula_noTests_def)

lemma calculateFormulaRisk_maximalPR: "calculateFormulaRisk maximalPR = 1 - 1 / 2 ^ 53"
proof -
  have n: "risk_noTests maximalPR" "formula_noTests maximalPR" by code_simp+
  have "calculateRisk maximalPR = 1 - 1 / 2 ^ 53"
    using n(1) by (intro calculateRisk_at_caps) (simp_all add: maximalPR_def)
  then show ?thesis
    using scorers_agree_if [of maximalPR] n by simp
qed

lemma calculateFormulaRisk_quietPR: "calculateFormulaRisk quietPR = 0"
proof -
  have n: "\<not> formula_noTests quietPR" by code_simp
  show ?thesis
    using n by (simp add: calculateFormulaRisk_def js_add_def js_mul_def js_div_def fl_zero
        quietPR_def)
qed

lemma specDirPR_scores:
  "calculateRisk specDirPR = 3692951694443807 / 9007199254740992"
  "calculateFormulaRisk specDirPR = 2747195772696003 / 4503599627370496"
  by code_simp+

text \<open>
  Claim C2 holds for \<^verbatim>\<open>calculateRisk\<close> and fails for the scorer of the threshold filter. The
  record \<open>upperCaseTestPR\<close> changes the single file \<^verbatim>\<open>SRC/Feature.Test.ts\<close> and nothing else
  counts towards its score: \<^verbatim>\<open>calculateRisk\<close> sees the test file and scores 0, and with
  \<^verbatim>\<open>src/feature.ts\<close> instead it adds the 0.2 of a change without tests; the filter's
  \<^verbatim>\<open>calculateFormulaRisk\<close> sees no test file in \<open>upperCaseTestPR\<close>, scores 0.2, and at the
  threshold 0.2 selects a record whose attached score is 0.
\<close>

theorem formula_filter_case_sensitive:
  "toLowerCase ''SRC/Feature.Test.ts'' = ''src/feature.test.ts''
   \<and> \<not> risk_noTests upperCaseTestPR \<and> calculateRisk upperCaseTestPR = 0
   \<and> risk_noTests lowerCasePlainPR \<and> calculateRisk lowerCasePlainPR = lit_0_2
   \<and> formula_noTests upperCaseTestPR \<and> calculateFormulaRisk upperCaseTestPR = lit_0_2
   \<and> map PullRequest.riskScore (highRiskPRs (calculateRiskForPRs [upperCaseTestPR]) lit_0_2)
       = [Some 0]"
  by code_simp

text \<open>
  Claim C10 fails: on the record \<open>specDirPR\<close>, whose only changed file is
  \<^verbatim>\<open>Spec/Runner.TS\<close>, \<^verbatim>\<open>calculateRisk\<close> returns 0.41 and \<^verbatim>\<open>calculateFormulaRisk\<close> returns
  0.61, on either side of the default threshold.
\<close>

theorem scorers_disagree:
  "calculateRisk specDirPR \<noteq> calculateFormulaRisk specDirPR
   \<and> calculateRisk specDirPR < 1 / 2 \<and> 1 / 2 \<le> calculateFormulaRisk specDirPR"
  by (simp add: specDirPR_scores)

section \<open>The batch loop\<close>

lemma numbered_Nil: "numbered k [] = []"
  by (simp add: numbered_def)

lemma numbered_Cons: "numbered k (pr # batch) = (k, pr) # numbered (Suc k) batch"
  by (simp add: numbered_def upt_conv_Cons del: upt_Suc)

lemma settle_pair:
  "settle analyze apiKey (k, pr)
     = (case analyze k pr apiKey of Inl err \<Rightarrow> None | Inr analysis \<Rightarrow> Some (number pr, analysis))"
  by (simp add: settle_def split: sum.splits)

lemma storeResults_settle:
  "storeResults results (map (settle analyze apiKey) (numbered k batch))
     = analyzeIndividually analyze apiKey k batch results"
proof (induction batch arbitrary: k results)
  case Nil
  show ?case by (simp add: numbered_Nil)
next
  case (Cons pr batch)
  show ?case
  proof (cases "analyze k pr apiKey")
    case (Inl err)
    then show ?thesis
      by (simp add: numbered_Cons settle_pair Cons.IH)
  next
    case (Inr analysis)
    have "storeResults results (map (settle analyze apiKey) (numbered k (pr # batch)))
        = storeResults (results(number pr \<mapsto> analysis))
            (map (settle analyze apiKey) (numbered (Suc k) batch))"
      using Inr by (simp add: numbered_Cons settle_pair)
    also have "\<dots> = analyzeIndividually analyze apiKey (Suc k) batch
        (results(number pr \<mapsto> analysis))"
      by (rule Cons.IH)
    also have "\<dots> = analyzeIndividually analyze apiKey k (pr # batch) results"
      using Inr by simp
    finally show ?thesis .
  qed
qed

lemma analyzeIndividually_append:
  "analyzeIndividually analyze apiKey k (xs @ ys) results
     = analyzeIndividually analyze apiKey (k + length xs) ys
         (analyzeIndividually analyze apiKey k xs results)"
  by (induction xs arbitrary: k results) simp_all

lemma chunksOf_Nil: "chunksOf n [] = []"
  by (simp add: chunksOf.simps)

lemma chunksOf_step: "0 < n \<Longrightarrow> xs \<noteq> [] \<Longrightarrow> chunksOf n xs = take n xs # chunksOf n (drop n xs)"
  by (subst chunksOf.simps) simp

lemma batchStep_fst:
  "fst (batchStep analyze apiKey conc progress prs i st)
     = analyzeIndividually analyze apiKey (length (calls (snd st))) (take conc (drop i prs)) (fst st)"
  by (simp add: batchStep_def Let_def js_slice_def storeResults_settle)

lemma batchStep_calls:
  "calls (snd (batchStep analyze apiKey conc progress prs i st))
     = calls (snd st) @ take conc (drop i prs)"
  by (simp add: batchStep_def Let_def js_slice_def)

lemma batchStep_batches:
  "batches (snd (batchStep analyze apiKey conc progress prs i st))
     = batches (snd st) @ [take conc (drop i prs)]"
  by (simp add: batchStep_def Let_def js_slice_def)

lemma batchLoop_run:
  assumes "0 < conc"
  shows "\<exists>st'. batchLoop analyze apiKey conc progress prs i st = Some st'
    \<and> calls (snd st') = calls (snd st) @ drop i prs
    \<and> batches (snd st') = batches (snd st) @ chunksOf conc (drop i prs)
    \<and> fst st' = analyzeIndividually analyze apiKey (length (calls (snd st))) (drop i prs) (fst st)"
proof (induction "length prs - i" arbitrary: i st rule: less_induct)
  case less
  show ?case
  proof (cases "i < length prs")
    case False
    then show ?thesis
      by (subst batchLoop.simps) (simp add: chunksOf_Nil)
  next
    case True
    define st1 where "st1 = batchStep analyze apiKey conc progress prs i st"
    have "length prs - (i + conc) < length prs - i"
      using True assms by simp
    from less [OF this, of st1] obtain st' where
      run: "batchLoop analyze apiKey conc progress prs (i + conc) st1 = Some st'"
      and c: "calls (snd st') = calls (snd st1) @ drop (i + conc) prs"
      and b: "batches (snd st') = batches (snd st1) @ chunksOf conc (drop (i + conc) prs)"
      and r: "fst st' = analyzeIndividually analyze apiKey (length (calls (snd st1)))
                (drop (i + conc) prs) (fst st1)"
      by blast
    have d: "drop (i + conc) prs = drop conc (drop i prs)"
      by (simp add: add.commute)
    have ne: "drop i prs \<noteq> []" using True by simp
    have td: "take conc (drop i prs) @ drop (i + conc) prs = drop i prs"
      unfolding d by (rule append_take_drop_id)
    have 1: "batchLoop analyze apiKey conc progress prs i st = Some st'"
      using True run by (subst batchLoop.simps) (simp add: st1_def)
    have 2: "calls (snd st') = calls (snd st) @ drop i prs"
      using c td by (simp add: st1_def batchStep_calls)
    have 3: "batches (snd st') = batches (snd st) @ chunksOf conc (drop i prs)"
      using b unfolding d by (simp add: st1_def batchStep_batches chunksOf_step [OF assms ne])
    have "analyzeIndividually analyze apiKey (length (calls (snd st))) (drop i prs) (fst st)
        = analyzeIndividually analyze apiKey (length (calls (snd st)))
            (take conc (drop i prs) @ drop conc (drop i prs)) (fst st)"
      by (simp only: append_take_drop_id)
    also have "\<dots> = fst st'"
      unfolding analyzeIndividually_append r d
      by (simp add: st1_def batchStep_fst batchStep_calls)
    finally have 4: "fst st' = analyzeIndividually analyze apiKey (length (calls (snd st)))
        (drop i prs) (fst st)" by simp
    from 1 2 3 4 show ?thesis by blast
  qed
qed

text \<open>
  A loop that returns has a positive group size or nothing to do: with \<^verbatim>\<open>concurrent\<close> 0
  and a record left, it does not return.
\<close>

lemma batchLoop_Some_advances:
  assumes "batchLoop analyze apiKey conc progress prs i st = Some st'"
  shows "0 < conc \<or> length prs \<le> i"
proof (rule batchLoop.raw_induct
    [where P = "\<lambda>_ _ conc _ prs i _ _. 0 < conc \<or> length prs \<le> i", OF _ assms])
  fix f :: "provider \<Rightarrow> string \<Rightarrow> nat \<Rightarrow> bool \<Rightarrow> PullRequest list \<Rightarrow> nat \<Rightarrow>
      (int \<rightharpoonup> AIRiskAnalysis) \<times> Effects \<Rightarrow> ((int \<rightharpoonup> AIRiskAnalysis) \<times> Effects) option"
  fix analyze apiKey conc progress prs i st y
  assume IH: "\<And>analyze apiKey conc progress prs i st y.
      f analyze apiKey conc progress prs i st = Some y \<Longrightarrow> 0 < conc \<or> length prs \<le> i"
  assume eq: "(if i < length prs
      then f analyze apiKey conc progress prs (i + conc)
             (batchStep analyze apiKey conc progress prs i st)
      else Some st) = Some y"
  show "0 < conc \<or> length prs \<le> i"
  proof (cases "i < length prs")
    case True
    then have "f analyze apiKey conc progress prs (i + conc)
        (batchStep analyze apiKey conc progress prs i st) = Some y"
      using eq by simp
    from IH [OF this] show ?thesis by auto
  next
    case False
    then show ?thesis by simp
  qed
qed

lemma batchLoop_stuck:
  assumes "i < length prs"
  shows "batchLoop analyze apiKey 0 progress prs i st = None"
proof (cases "batchLoop analyze apiKey 0 progress prs i st")
  case None
  then show ?thesis .
next
  case (Some st')
  from batchLoop_Some_advances [OF this] assms show ?thesis by simp
qed

lemma batchAnalyze_run:
  assumes "0 < concurrency options"
  shows "\<exists>results eff'. batchAnalyzeRisksWithAI analyze prs apiKey options eff = Some (results, eff')
    \<and> calls eff' = calls eff @ prs
    \<and> batches eff' = batches eff @ chunksOf (concurrency options) prs
    \<and> results = analyzeIndividually analyze apiKey (length (calls eff)) prs Map.empty"
  using batchLoop_run [OF assms, of analyze apiKey "onProgress options" prs 0 "(Map.empty, eff)"]
  by (auto simp: batchAnalyzeRisksWithAI_def)

lemma analyzeIndividually_other:
  "n \<notin> number ` set prs \<Longrightarrow> analyzeIndividually analyze apiKey k prs results n = results n"
proof (induction prs arbitrary: k results)
  case Nil
  show ?case by simp
next
  case (Cons pr prs)
  then show ?case
    by (cases "analyze k pr apiKey") simp_all
qed

lemma analyzeIndividually_lookup:
  assumes "distinct (map number prs)" "i < length prs"
  shows "analyzeIndividually analyze apiKey k prs results (number (prs ! i))
     = (case analyze (k + i) (prs ! i) apiKey of
          Inl err \<Rightarrow> results (number (prs ! i))
        | Inr analysis \<Rightarrow> Some analysis)"
  using assms
proof (induction prs arbitrary: k results i)
  case Nil
  then show ?case by simp
next
  case (Cons pr prs)
  have notin: "number pr \<notin> number ` set prs"
    using Cons.prems(1) by simp
  show ?case
  proof (cases i)
    case 0
    then show ?thesis
      using analyzeIndividually_other [OF notin, of analyze apiKey "Suc k"]
      by (cases "analyze k pr apiKey") simp_all
  next
    case (Suc j)
    then have j: "j < length prs" using Cons.prems(2) by simp
    have d: "distinct (map number prs)" using Cons.prems(1) by simp
    have ne: "number (prs ! j) \<noteq> number pr"
      using notin j by (metis image_eqI nth_mem)
    show ?thesis
      using Cons.IH [OF d j, of "Suc k"] ne Suc
      by (cases "analyze k pr apiKey") (simp_all split: sum.splits)
  qed
qed

lemma succeeds_fails: "fails analyze apiKey k prs i = (\<not> succeeds analyze apiKey k prs i)"
  by (simp add: fails_def succeeds_def split: sum.splits)

lemma number_nth_inj:
  assumes "distinct (map number prs)" "i < length prs" "j < length prs"
    and "number (prs ! i) = number (prs ! j)"
  shows "i = j"
proof -
  have "map number prs ! i = map number prs ! j"
    using assms by simp
  then show ?thesis
    using assms nth_eq_iff_index_eq [of "map number prs" i j] by simp
qed

lemma analyzeIndividually_dom:
  assumes "distinct (map number prs)"
  shows "dom (analyzeIndividually analyze apiKey k prs Map.empty)
     = (\<lambda>i. number (prs ! i)) ` {i. i < length prs \<and> succeeds analyze apiKey k prs i}"
proof (rule set_eqI)
  fix n
  define M where "M = analyzeIndividually analyze apiKey k prs Map.empty"
  have look: "M (number (prs ! i))
      = (case analyze (k + i) (prs ! i) apiKey of Inl err \<Rightarrow> None | Inr analysis \<Rightarrow> Some analysis)"
    if "i < length prs" for i
    unfolding M_def using analyzeIndividually_lookup [OF assms that, of analyze apiKey k Map.empty]
    by simp
  show "n \<in> dom (analyzeIndividually analyze apiKey k prs Map.empty)
     \<longleftrightarrow> n \<in> (\<lambda>i. number (prs ! i)) ` {i. i < length prs \<and> succeeds analyze apiKey k prs i}"
    unfolding M_def [symmetric]
  proof
    assume "n \<in> dom M"
    then obtain a where a: "M n = Some a" by blast
    have "n \<in> number ` set prs"
    proof (rule ccontr)
      assume "n \<notin> number ` set prs"
      then have "M n = None"
        unfolding M_def by (rule analyzeIndividually_other [where results = Map.empty, simplified])
      with a show False by simp
    qed
    then obtain pr where pr: "pr \<in> set prs" "n = number pr" by blast
    then obtain i where i: "i < length prs" "prs ! i = pr"
      by (meson in_set_conv_nth)
    have "succeeds analyze apiKey k prs i"
      using look [OF i(1)] a pr(2) i(2)
      by (cases "analyze (k + i) (prs ! i) apiKey") (simp_all add: succeeds_def)
    then show "n \<in> (\<lambda>i. number (prs ! i)) ` {i. i < length prs \<and> succeeds analyze apiKey k prs i}"
      using i pr(2) by blast
  next
    assume "n \<in> (\<lambda>i. number (prs ! i)) ` {i. i < length prs \<and> succeeds analyze apiKey k prs i}"
    then obtain i where i: "i < length prs" "succeeds analyze apiKey k prs i" "n = number (prs ! i)"
      by blast
    show "n \<in> dom M"
      using look [OF i(1)] i(2,3)
      by (cases "analyze (k + i) (prs ! i) apiKey") (simp_all add: succeeds_def dom_def)
  qed
qed

lemma analyzeIndividually_card:
  assumes "distinct (map number prs)"
  shows "card (dom (analyzeIndividually analyze apiKey k prs Map.empty))
     = length (filter (succeeds analyze apiKey k prs) [0..<length prs])"
proof -
  have inj: "inj_on (\<lambda>i. number (prs ! i)) {i. i < length prs \<and> succeeds analyze apiKey k prs i}"
  proof (rule inj_onI)
    fix i j
    assume "i \<in> {i. i < length prs \<and> succeeds analyze apiKey k prs i}"
      "j \<in> {i. i < length prs \<and> succeeds analyze apiKey k prs i}"
      "number (prs ! i) = number (prs ! j)"
    then show "i = j"
      using assms by (intro number_nth_inj [of prs i j]) simp_all
  qed
  have "{i. i < length [0..<length prs] \<and> succeeds analyze apiKey k prs ([0..<length prs] ! i)}
      = {i. i < length prs \<and> succeeds analyze apiKey k prs i}"
    by auto
  then have "length (filter (succeeds analyze apiKey k prs) [0..<length prs])
      = card {i. i < length prs \<and> succeeds analyze apiKey k prs i}"
    by (simp only: length_filter_conv_card)
  then show ?thesis
    by (simp add: analyzeIndividually_dom [OF assms] card_image [OF inj])
qed

lemma one_failure:
  assumes "length (filter (fails analyze apiKey k prs) [0..<length prs]) = 1"
  shows "length (filter (succeeds analyze apiKey k prs) [0..<length prs]) = length prs - 1"
proof -
  have "length (filter (succeeds analyze apiKey k prs) [0..<length prs])
      + length (filter (\<lambda>i. \<not> succeeds analyze apiKey k prs i) [0..<length prs]) = length [0..<length prs]"
    by (rule sum_length_filter_compl)
  moreover have "(\<lambda>i. \<not> succeeds analyze apiKey k prs i) = fails analyze apiKey k prs"
    by (simp add: succeeds_fails fun_eq_iff)
  ultimately show ?thesis using assms by simp
qed

lemma chunksOf_concat: "0 < n \<Longrightarrow> concat (chunksOf n xs) = xs"
proof (induction n xs rule: chunksOf.induct)
  case (1 n xs)
  show ?case
  proof (cases "xs = []")
    case True
    then show ?thesis by (simp add: chunksOf_Nil)
  next
    case False
    then show ?thesis
      using 1 by (simp add: chunksOf_step)
  qed
qed

lemma chunksOf_lengths:
  "0 < n \<Longrightarrow> map length (chunksOf n xs)
     = replicate (length xs div n) n @ (if length xs mod n = 0 then [] else [length xs mod n])"
proof (induction n xs rule: chunksOf.induct)
  case (1 n xs)
  show ?case
  proof (cases "xs = []")
    case True
    then show ?thesis by (simp add: chunksOf_Nil)
  next
    case False
    note ne = this
    have IH: "map length (chunksOf n (drop n xs))
        = replicate (length (drop n xs) div n) n
          @ (if length (drop n xs) mod n = 0 then [] else [length (drop n xs) mod n])"
      using 1 ne by simp
    show ?thesis
    proof (cases "n \<le> length xs")
      case True
      then have d: "length xs div n = Suc ((length xs - n) div n)"
        and m: "length xs mod n = (length xs - n) mod n"
        using 1(2) by (simp_all add: le_div_geq le_mod_geq)
      show ?thesis
        using True IH 1(2) ne by (simp add: chunksOf_step d m min_def)
    next
      case False
      then have "length xs < n" by simp
      then show ?thesis
        using ne 1(2) by (simp add: chunksOf_step chunksOf_Nil)
    qed
  qed
qed

lemma concurrency_default: "concurrency noOptions = 3"
  by (simp add: concurrency_def noOptions_def)

lemma hybrid_run:
  "\<exists>results eff'. hybridRiskAnalysis analyze prs apiKey (Some t) eff = Some (results, eff')
    \<and> calls eff' = calls eff @ highRiskPRs prs t
    \<and> results = analyzeIndividually analyze apiKey (length (calls eff)) (highRiskPRs prs t) Map.empty"
proof -
  have h: "0 < concurrency noOptions" by (simp add: concurrency_default)
  show ?thesis
    using batchAnalyze_run [OF h, of analyze "highRiskPRs prs t" apiKey
        "eff\<lparr>events := events eff @ [ConsoleLog (length (highRiskPRs prs t))]\<rparr>"]
    by (auto simp: hybridRiskAnalysis_def Let_def)
qed

section \<open>The escalator's result\<close>

text \<open>
  Claim C5. With a positive group size and records of distinct numbers (a pull request
  number identifies its record), the escalator returns whatever calls fail: the map holds
  the analysis of every record whose call succeeded and nothing for one whose call failed,
  it has one entry per successful call, and when exactly one call fails it has one entry
  fewer than there are records.
\<close>

theorem escalation_isolated:
  assumes "0 < concurrency options" "distinct (map number prs)"
  shows "\<exists>results eff'.
      batchAnalyzeRisksWithAI analyze prs apiKey options eff = Some (results, eff')
    \<and> (\<forall>i<length prs. results (number (prs ! i))
          = (case analyze (length (calls eff) + i) (prs ! i) apiKey of
               Inl err \<Rightarrow> None | Inr analysis \<Rightarrow> Some analysis))
    \<and> dom results \<subseteq> number ` set prs
    \<and> card (dom results)
        = length (filter (succeeds analyze apiKey (length (calls eff)) prs) [0..<length prs])
    \<and> (length (filter (fails analyze apiKey (length (calls eff)) prs) [0..<length prs]) = 1
        \<longrightarrow> card (dom results) = length prs - 1)"
proof -
  define results where
    "results = analyzeIndividually analyze apiKey (length (calls eff)) prs Map.empty"
  obtain eff' where run: "batchAnalyzeRisksWithAI analyze prs apiKey options eff = Some (results, eff')"
    using batchAnalyze_run [OF assms(1), of analyze prs apiKey eff] by (auto simp: results_def)
  have look: "\<forall>i<length prs. results (number (prs ! i))
      = (case analyze (length (calls eff) + i) (prs ! i) apiKey of
           Inl err \<Rightarrow> None | Inr analysis \<Rightarrow> Some analysis)"
    by (simp add: results_def analyzeIndividually_lookup [OF assms(2)])
  have sub: "dom results \<subseteq> number ` set prs"
    unfolding results_def analyzeIndividually_dom [OF assms(2)] by auto
  have card: "card (dom results)
      = length (filter (succeeds analyze apiKey (length (calls eff)) prs) [0..<length prs])"
    unfolding results_def by (rule analyzeIndividually_card [OF assms(2)])
  have one: "length (filter (fails analyze apiKey (length (calls eff)) prs) [0..<length prs]) = 1
      \<longrightarrow> card (dom results) = length prs - 1"
    using card one_failure by simp
  from run look sub card one show ?thesis by (intro exI conjI)
qed

theorem escalation_isolated_witness:
  "0 < concurrency noOptions \<and> distinct (map number sevenPRs)
   \<and> length (filter (fails flakyProvider ''key'' (length (calls noEffects)) sevenPRs)
        [0..<length sevenPRs]) = 1
   \<and> (\<exists>results eff'.
        batchAnalyzeRisksWithAI flakyProvider sevenPRs ''key'' noOptions noEffects
          = Some (results, eff')
        \<and> results 1 = Some someAnalysis \<and> results 2 = None
        \<and> card (dom results) = 6)"
proof -
  have h1: "0 < concurrency noOptions" by code_simp
  have h2: "distinct (map number sevenPRs)" by code_simp
  have h3: "length (filter (fails flakyProvider ''key'' (length (calls noEffects)) sevenPRs)
      [0..<length sevenPRs]) = 1" by code_simp
  have n: "length sevenPRs = 7" "number (sevenPRs ! 0) = 1" "number (sevenPRs ! 1) = 2"
    by (simp_all add: sevenPRs_def)
  obtain results eff' where
    r: "batchAnalyzeRisksWithAI flakyProvider sevenPRs ''key'' noOptions noEffects
        = Some (results, eff')"
    and l: "\<forall>i<length sevenPRs. results (number (sevenPRs ! i))
        = (case flakyProvider (length (calls noEffects) + i) (sevenPRs ! i) ''key'' of
             Inl err \<Rightarrow> None | Inr analysis \<Rightarrow> Some analysis)"
    and c: "length (filter (fails flakyProvider ''key'' (length (calls noEffects)) sevenPRs)
          [0..<length sevenPRs]) = 1 \<longrightarrow> card (dom results) = length sevenPRs - 1"
    using escalation_isolated [OF h1 h2, of flakyProvider "''key''" noEffects] by blast
  have "results 1 = Some someAnalysis"
    using l [rule_format, of 0] n by (simp add: flakyProvider_def noEffects_def)
  moreover have "results 2 = None"
    using l [rule_format, of 1] n by (simp add: flakyProvider_def noEffects_def)
  moreover have "card (dom results) = 6"
    using c h3 n by simp
  ultimately show ?thesis
    using h1 h2 h3 r by blast
qed

text \<open>
  Claim C7. Let \<open>c\<close> be the group size the caller asks for, the \<^verbatim>\<open>concurrent\<close> of the options
  or 3 when the options have none, and let it be positive. Then the escalator cuts its input
  into consecutive groups of \<open>c\<close> records: the groups it forms are \<open>chunksOf c\<close> of the
  input, their concatenation is the input, each has \<open>c\<close> records except a smaller last one
  holding the remainder, and the map it returns is the one obtained by analysing the records
  one at a time in input order. The instances below have 7 records: without the option the
  groups have sizes 3, 3 and 1, with \<^verbatim>\<open>concurrent\<close> 2 they have sizes 2, 2, 2 and 1.
\<close>

theorem batches_partition:
  assumes "c = (case concurrent options of None \<Rightarrow> 3 | Some n \<Rightarrow> n)" and "0 < c"
  shows "\<exists>results eff'.
      batchAnalyzeRisksWithAI analyze prs apiKey options eff = Some (results, eff')
    \<and> batches eff' = batches eff @ chunksOf c prs
    \<and> concat (chunksOf c prs) = prs
    \<and> map length (chunksOf c prs)
        = replicate (length prs div c) c @ (if length prs mod c = 0 then [] else [length prs mod c])
    \<and> results = analyzeIndividually analyze apiKey (length (calls eff)) prs Map.empty"
proof -
  have c: "concurrency options = c"
    using assms(1) by (simp add: concurrency_def)
  have p: "0 < concurrency options"
    using assms(2) c by simp
  show ?thesis
    using batchAnalyze_run [OF p, of analyze prs apiKey eff]
      chunksOf_concat [OF assms(2), of prs] chunksOf_lengths [OF assms(2), of prs]
    unfolding c by blast
qed

theorem batches_partition_witness:
  "(3::nat) = (case concurrent noOptions of None \<Rightarrow> 3 | Some n \<Rightarrow> n)
   \<and> (2::nat) = (case concurrent pairOptions of None \<Rightarrow> 3 | Some n \<Rightarrow> n)
   \<and> (\<exists>results eff'.
        batchAnalyzeRisksWithAI flakyProvider sevenPRs ''key'' noOptions noEffects
          = Some (results, eff')
        \<and> map length (batches eff') = [3, 3, 1]
        \<and> concat (batches eff') = sevenPRs)
   \<and> (\<exists>results eff'.
        batchAnalyzeRisksWithAI flakyProvider sevenPRs ''key'' pairOptions noEffects
          = Some (results, eff')
        \<and> map length (batches eff') = [2, 2, 2, 1]
        \<and> concat (batches eff') = sevenPRs)"
proof -
  have h3: "(3::nat) = (case concurrent noOptions of None \<Rightarrow> 3 | Some n \<Rightarrow> n)"
    by (simp add: noOptions_def)
  have h2: "(2::nat) = (case concurrent pairOptions of None \<Rightarrow> 3 | Some n \<Rightarrow> n)"
    by (simp add: pairOptions_def)
  have n: "length sevenPRs = 7" by (simp add: sevenPRs_def)
  have b: "batches noEffects = []" by (simp add: noEffects_def)
  have r3: "replicate (7 div 3) (3::nat) @ (if 7 mod 3 = (0::nat) then [] else [7 mod 3]) = [3, 3, 1]"
    by code_simp
  have r2: "replicate (7 div 2) (2::nat) @ (if 7 mod 2 = (0::nat) then [] else [7 mod 2])
      = [2, 2, 2, 1]"
    by code_simp
  have three: "\<exists>results eff'.
      batchAnalyzeRisksWithAI flakyProvider sevenPRs ''key'' noOptions noEffects
        = Some (results, eff')
      \<and> map length (batches eff') = [3, 3, 1] \<and> concat (batches eff') = sevenPRs"
    using batches_partition [OF h3, of flakyProvider sevenPRs "''key''" noEffects]
    unfolding n b r3 by auto
  have two: "\<exists>results eff'.
      batchAnalyzeRisksWithAI flakyProvider sevenPRs ''key'' pairOptions noEffects
        = Some (results, eff')
      \<and> map length (batches eff') = [2, 2, 2, 1] \<and> concat (batches eff') = sevenPRs"
    using batches_partition [OF h2, of flakyProvider sevenPRs "''key''" noEffects]
    unfolding n b r2 by auto
  from h3 h2 three two show ?thesis by (intro conjI)
qed

section \<open>The hybrid analysis\<close>

text \<open>
  Claim C4 fails in its second half. The filter of \<^verbatim>\<open>hybridRiskAnalysis\<close> is inclusive, but
  it compares the threshold with \<^verbatim>\<open>calculateFormulaRisk\<close>, not with the formula score of the
  record: \<open>specDirPR\<close>, whose only changed file is \<^verbatim>\<open>Spec/Runner.TS\<close>, has the formula score
  0.41 attached by \<^verbatim>\<open>calculateRiskForPRs\<close>, strictly below the threshold 0.5, and is the
  record sent to the provider.
\<close>

theorem filter_admits_lower_formula_score:
  "map PullRequest.riskScore (calculateRiskForPRs [specDirPR]) = [Some (calculateRisk specDirPR)]
   \<and> calculateRisk specDirPR < 1 / 2
   \<and> map_option (\<lambda>r. map (\<lambda>pr. (number pr, PullRequest.riskScore pr)) (calls (snd r)))
        (hybridRiskAnalysis flakyProvider (calculateRiskForPRs [specDirPR]) ''key''
           (Some (1 / 2)) noEffects)
      = Some [(4, Some (calculateRisk specDirPR))]"
proof -
  have hr: "highRiskPRs (calculateRiskForPRs [specDirPR]) (1 / 2)
      = [specDirPR\<lparr>PullRequest.riskScore := Some (calculateRisk specDirPR)\<rparr>]"
    by (simp add: highRiskPRs_def calculateRiskForPRs_def calculateFormulaRisk_riskScore
        specDirPR_scores(2))
  obtain results eff' where
    run: "hybridRiskAnalysis flakyProvider (calculateRiskForPRs [specDirPR]) ''key''
        (Some (1 / 2)) noEffects = Some (results, eff')"
    and c: "calls eff' = calls noEffects @ highRiskPRs (calculateRiskForPRs [specDirPR]) (1 / 2)"
    using hybrid_run [of flakyProvider "calculateRiskForPRs [specDirPR]" "''key''" "1 / 2" noEffects]
    by blast
  have n: "number specDirPR = 4" by (simp add: specDirPR_def)
  have sent: "calls eff' = [specDirPR\<lparr>PullRequest.riskScore := Some (calculateRisk specDirPR)\<rparr>]"
    using c hr by (simp add: noEffects_def)
  have 1: "map PullRequest.riskScore (calculateRiskForPRs [specDirPR])
      = [Some (calculateRisk specDirPR)]"
    by (simp add: calculateRiskForPRs_def)
  have 2: "calculateRisk specDirPR < 1 / 2"
    by (simp add: specDirPR_scores(1))
  have 3: "map_option (\<lambda>r. map (\<lambda>pr. (number pr, PullRequest.riskScore pr)) (calls (snd r)))
        (hybridRiskAnalysis flakyProvider (calculateRiskForPRs [specDirPR]) ''key''
           (Some (1 / 2)) noEffects)
      = Some [(4, Some (calculateRisk specDirPR))]"
    by (simp add: run sent n)
  from 1 2 3 show ?thesis by (intro conjI)
qed

section \<open>The risk stage of the digest command\<close>

lemma calculateRiskForPRs_Nil: "calculateRiskForPRs [] = []"
  by (simp add: calculateRiskForPRs_def)

lemma highRiskPRs_Nil: "highRiskPRs [] t = []"
  by (simp add: highRiskPRs_def)

lemma mergeAI_truncate:
  "PullRequest.truncate ((mergeAI m pr)\<lparr>PullRequest.riskScore := None\<rparr>)
     = pr\<lparr>PullRequest.riskScore := None\<rparr>"
  by (simp add: mergeAI_def PullRequest.truncate_def PullRequest.extend_def split: option.splits)

lemma mergeAI_number: "number (mergeAI m pr) = number pr"
  by (simp add: mergeAI_def PullRequest.extend_def split: option.splits)

lemma digestRiskStage_result:
  "\<exists>aiRiskResults eff'.
      hybridRiskAnalysis analyze (calculateRiskForPRs prs) apiKey
        (Some (thresholdOrDefault aiRiskThreshold)) eff = Some (aiRiskResults, eff')
    \<and> digestRiskStage analyze apiKey True aiRiskThreshold prs eff
        = Some (map (mergeAI aiRiskResults) (calculateRiskForPRs prs), eff')"
  using hybrid_run [of analyze "calculateRiskForPRs prs" apiKey "thresholdOrDefault aiRiskThreshold" eff]
  by (auto simp: digestRiskStage_def Let_def)

text \<open>
  Claim C9. On an empty list of records the risk stage returns the empty list, and no
  call of the provider and no batch is added to what the run had done before, for every
  provider, with and without \<^verbatim>\<open>--ai-risk\<close>, and for every threshold.
\<close>

theorem empty_input:
  "\<exists>eff'. digestRiskStage analyze apiKey aiRisk aiRiskThreshold [] eff = Some ([], eff')
     \<and> calls eff' = calls eff \<and> batches eff' = batches eff"
proof (cases aiRisk)
  case False
  then show ?thesis
    by (simp add: digestRiskStage_def calculateRiskForPRs_Nil)
next
  case True
  have h: "0 < concurrency noOptions" by (simp add: concurrency_default)
  obtain results eff' where
    run: "hybridRiskAnalysis analyze [] apiKey (Some (thresholdOrDefault aiRiskThreshold)) eff
        = Some (results, eff')"
    and c: "calls eff' = calls eff" and b: "batches eff' = batches eff"
    using batchAnalyze_run [OF h, of analyze "[]" apiKey "eff\<lparr>events := events eff @ [ConsoleLog 0]\<rparr>"]
    by (auto simp: hybridRiskAnalysis_def highRiskPRs_Nil chunksOf_Nil)
  show ?thesis
    using True run c b by (simp add: digestRiskStage_def calculateRiskForPRs_Nil)
qed

theorem empty_input_witness:
  "\<exists>eff'. digestRiskStage flakyProvider ''key'' True None [] noEffects = Some ([], eff')
     \<and> calls eff' = []"
  using empty_input [of flakyProvider "''key''" True None noEffects]
  by (auto simp: noEffects_def)

text \<open>
  Claim C3. For every input list, provider and threshold, with and without \<^verbatim>\<open>--ai-risk\<close>,
  the risk stage returns, and its output has the length of the input and holds the input's
  records in the input's order: position by position the same number, and the same record
  once the risk score is blanked and the attached analysis dropped.
\<close>

theorem order_preserved:
  "\<exists>out eff'. digestRiskStage analyze apiKey aiRisk aiRiskThreshold prs eff = Some (out, eff')
     \<and> length out = length prs
     \<and> map number out = map number prs
     \<and> map (\<lambda>p. PullRequest.truncate (p\<lparr>PullRequest.riskScore := None\<rparr>)) out
         = map (\<lambda>p. p\<lparr>PullRequest.riskScore := None\<rparr>) prs"
proof (cases aiRisk)
  case False
  then show ?thesis
    by (simp add: digestRiskStage_def calculateRiskForPRs_def PullRequest.truncate_def
        PullRequest.extend_def comp_def)
next
  case True
  obtain m eff' where
    "digestRiskStage analyze apiKey True aiRiskThreshold prs eff
        = Some (map (mergeAI m) (calculateRiskForPRs prs), eff')"
    using digestRiskStage_result [of analyze prs apiKey aiRiskThreshold eff] by blast
  then show ?thesis
    using True by (simp add: calculateRiskForPRs_def comp_def mergeAI_truncate mergeAI_number)
qed

theorem order_preserved_witness:
  "\<exists>out eff'. digestRiskStage flakyProvider ''key'' True None [maximalPR, examplePR, largePR] noEffects
       = Some (out, eff')
     \<and> map number out = [1, 842, 2]"
  using order_preserved [of flakyProvider "''key''" True None "[maximalPR, examplePR, largePR]" noEffects]
  by (auto simp: maximalPR_def examplePR_def largePR_def)

text \<open>
  Claim C1. In the output of the risk stage, a record whose number is a key of the map
  returned by \<^verbatim>\<open>hybridRiskAnalysis\<close> has the score of the analysis stored under that key as
  its \<^verbatim>\<open>riskScore\<close>, and carries that analysis; a record whose number is not a key has the
  score of \<^verbatim>\<open>calculateRisk\<close> and carries no analysis.
\<close>

theorem score_override:
  "\<exists>aiRiskResults out eff'.
      hybridRiskAnalysis analyze (calculateRiskForPRs prs) apiKey
        (Some (thresholdOrDefault aiRiskThreshold)) eff = Some (aiRiskResults, eff')
    \<and> digestRiskStage analyze apiKey True aiRiskThreshold prs eff = Some (out, eff')
    \<and> length out = length prs
    \<and> (\<forall>i<length prs.
          case aiRiskResults (number (prs ! i)) of
            Some aiAnalysis \<Rightarrow>
              PullRequest.riskScore (out ! i) = Some (AIRiskAnalysis.riskScore aiAnalysis)
              \<and> aiRiskAnalysis (out ! i) = Some aiAnalysis
          | None \<Rightarrow>
              PullRequest.riskScore (out ! i) = Some (calculateRisk (prs ! i))
              \<and> aiRiskAnalysis (out ! i) = None)"
proof -
  obtain m eff' where
    h: "hybridRiskAnalysis analyze (calculateRiskForPRs prs) apiKey
        (Some (thresholdOrDefault aiRiskThreshold)) eff = Some (m, eff')"
    and d: "digestRiskStage analyze apiKey True aiRiskThreshold prs eff
        = Some (map (mergeAI m) (calculateRiskForPRs prs), eff')"
    using digestRiskStage_result [of analyze prs apiKey aiRiskThreshold eff] by blast
  have l: "length (map (mergeAI m) (calculateRiskForPRs prs)) = length prs"
    by (simp add: calculateRiskForPRs_def)
  have e: "\<forall>i<length prs.
      case m (number (prs ! i)) of
        Some aiAnalysis \<Rightarrow>
          PullRequest.riskScore (map (mergeAI m) (calculateRiskForPRs prs) ! i)
            = Some (AIRiskAnalysis.riskScore aiAnalysis)
          \<and> aiRiskAnalysis (map (mergeAI m) (calculateRiskForPRs prs) ! i) = Some aiAnalysis
      | None \<Rightarrow>
          PullRequest.riskScore (map (mergeAI m) (calculateRiskForPRs prs) ! i)
            = Some (calculateRisk (prs ! i))
          \<and> aiRiskAnalysis (map (mergeAI m) (calculateRiskForPRs prs) ! i) = None"
    by (simp add: calculateRiskForPRs_def mergeAI_def PullRequest.extend_def split: option.splits)
  from h d l e show ?thesis by (intro exI conjI)
qed

lemma highRisk_example:
  "highRiskPRs (calculateRiskForPRs [maximalPR, quietPR]) (thresholdOrDefault None)
     = [maximalPR\<lparr>PullRequest.riskScore := Some (calculateRisk maximalPR)\<rparr>]"
  by (simp add: highRiskPRs_def calculateRiskForPRs_def thresholdOrDefault_def
      calculateFormulaRisk_riskScore calculateFormulaRisk_maximalPR calculateFormulaRisk_quietPR)

theorem score_override_witness:
  "\<exists>out eff'.
      digestRiskStage flakyProvider ''key'' True None [maximalPR, quietPR] noEffects
        = Some (out, eff')
    \<and> PullRequest.riskScore (out ! 0) = Some (3 / 4)
    \<and> aiRiskAnalysis (out ! 0) = Some someAnalysis
    \<and> PullRequest.riskScore (out ! 1) = Some (calculateRisk quietPR)
    \<and> aiRiskAnalysis (out ! 1) = None"
proof -
  obtain m out eff' where
    h: "hybridRiskAnalysis flakyProvider (calculateRiskForPRs [maximalPR, quietPR]) ''key''
        (Some (thresholdOrDefault None)) noEffects = Some (m, eff')"
    and d: "digestRiskStage flakyProvider ''key'' True None [maximalPR, quietPR] noEffects
        = Some (out, eff')"
    and e: "\<forall>i<length [maximalPR, quietPR].
          case m (number ([maximalPR, quietPR] ! i)) of
            Some aiAnalysis \<Rightarrow>
              PullRequest.riskScore (out ! i) = Some (AIRiskAnalysis.riskScore aiAnalysis)
              \<and> aiRiskAnalysis (out ! i) = Some aiAnalysis
          | None \<Rightarrow>
              PullRequest.riskScore (out ! i) = Some (calculateRisk ([maximalPR, quietPR] ! i))
              \<and> aiRiskAnalysis (out ! i) = None"
    using score_override [of flakyProvider "[maximalPR, quietPR]" "''key''" None noEffects]
    by blast
  have n: "number maximalPR = 1" "number quietPR = 8"
    by (simp_all add: maximalPR_def quietPR_def)
  have "m = analyzeIndividually flakyProvider ''key'' (length (calls noEffects))
      (highRiskPRs (calculateRiskForPRs [maximalPR, quietPR]) (thresholdOrDefault None)) Map.empty"
    using h hybrid_run [of flakyProvider "calculateRiskForPRs [maximalPR, quietPR]" "''key''"
        "thresholdOrDefault None" noEffects]
    by auto
  then have m: "m 1 = Some someAnalysis" "m 8 = None"
    by (simp_all add: highRisk_example noEffects_def flakyProvider_def n)
  have s: "AIRiskAnalysis.riskScore someAnalysis = 3 / 4"
    by (simp add: someAnalysis_def)
  have "PullRequest.riskScore (out ! 0) = Some (3 / 4) \<and> aiRiskAnalysis (out ! 0) = Some someAnalysis"
    using e [rule_format, of 0] m n s by simp
  moreover have "PullRequest.riskScore (out ! 1) = Some (calculateRisk quietPR)
      \<and> aiRiskAnalysis (out ! 1) = None"
    using e [rule_format, of 1] m n by simp
  ultimately show ?thesis using d by blast
qed

end
